theory Spec2Isabelle
  imports Main "HOL-Library.AList"
begin

section \<open>Qt values\<close>

text \<open>
  The settings manager of the domain server keeps its configuration in \<open>QVariant\<close> trees and
  its permissions in \<open>NodePermissions\<close> objects. This section fixes the representation of the Qt
  values the code works with: strings are character lists, a \<open>QUuid\<close> is a natural number
  with \<open>0\<close> for the null UUID, a \<open>QVariantMap\<close> is an association list.
\<close>

type_synonym QString = string

text \<open>
  \<open>toLower\<close> on the letters A to Z: a code between 65 and 90 gets 32 added, which sets bit 5 of
  the character.
\<close>

definition toLower_char :: "char \<Rightarrow> char" where
  "toLower_char c =
     (let n = (of_char c :: nat)
      in if 65 \<le> n \<and> n \<le> 90
         then (case c of Char b0 b1 b2 b3 b4 b5 b6 b7 \<Rightarrow> Char b0 b1 b2 b3 b4 True b6 b7)
         else c)"

definition toLower :: "QString \<Rightarrow> QString" where
  "toLower s = map toLower_char s"

fun str_less :: "QString \<Rightarrow> QString \<Rightarrow> bool" where
  "str_less [] [] = False"
| "str_less [] (y # ys) = True"
| "str_less (x # xs) [] = False"
| "str_less (x # xs) (y # ys) =
     ((of_char x :: nat) < of_char y \<or> ((of_char x :: nat) = of_char y \<and> str_less xs ys))"

type_synonym QUuid = nat

definition nullUuid :: QUuid where
  "nullUuid = 0"

datatype QVariant =
    Invalid
  | VBool bool
  | VInt int
  | VDouble QString
  | VString QString
  | VUuid QUuid
  | VList "QVariant list"
  | VMap "(QString \<times> QVariant) list"

type_synonym QVariantMap = "(QString \<times> QVariant) list"
type_synonym QVariantList = "QVariant list"

text \<open>\<open>VDouble t\<close> stands for the double that \<open>QString::toDouble\<close> reads from the text \<open>t\<close>.\<close>

definition contains :: "QVariantMap \<Rightarrow> QString \<Rightarrow> bool" where
  "contains m k = (map_of m k \<noteq> None)"

definition valueOf :: "QVariantMap \<Rightarrow> QString \<Rightarrow> QVariant" where
  "valueOf m k = (case map_of m k of None \<Rightarrow> Invalid | Some v \<Rightarrow> v)"

definition isNull :: "QVariant \<Rightarrow> bool" where
  "isNull v = (v = Invalid)"

fun decimal :: "nat \<Rightarrow> QString" where
  "decimal n =
     (if n < 10 then [''0123456789'' ! n] else decimal (n div 10) @ [''0123456789'' ! (n mod 10)])"

declare decimal.simps [simp del]

definition decimal_int :: "int \<Rightarrow> QString" where
  "decimal_int i = (if i < 0 then CHR ''-'' # decimal (nat (- i)) else decimal (nat i))"

fun toStringV :: "QVariant \<Rightarrow> QString" where
  "toStringV (VString s) = s"
| "toStringV (VBool b) = (if b then ''true'' else ''false'')"
| "toStringV (VInt i) = decimal_int i"
| "toStringV (VDouble t) = t"
| "toStringV (VUuid u) = CHR ''{'' # decimal u @ ''}''"
| "toStringV _ = []"

fun digit_value :: "char \<Rightarrow> nat option" where
  "digit_value c =
     (let n = (of_char c :: nat) in if 48 \<le> n \<and> n \<le> 57 then Some (n - 48) else None)"

fun parse_digits :: "nat \<Rightarrow> QString \<Rightarrow> nat option" where
  "parse_digits acc [] = Some acc"
| "parse_digits acc (c # cs) =
     (case digit_value c of None \<Rightarrow> None | Some d \<Rightarrow> parse_digits (10 * acc + d) cs)"

definition toInt_string :: "QString \<Rightarrow> int" where
  "toInt_string s =
     (let r = (case s of
                 [] \<Rightarrow> None
               | c # cs \<Rightarrow>
                   if c = CHR ''-'' then (if cs = [] then None else map_option (\<lambda>n. - int n) (parse_digits 0 cs))
                   else if c = CHR ''+'' then (if cs = [] then None else map_option int (parse_digits 0 cs))
                   else map_option int (parse_digits 0 s))
      in case r of
           None \<Rightarrow> 0
         | Some i \<Rightarrow> if - 2147483648 \<le> i \<and> i \<le> 2147483647 then i else 0)"

fun toIntV :: "QVariant \<Rightarrow> int" where
  "toIntV (VInt i) = i"
| "toIntV (VBool b) = (if b then 1 else 0)"
| "toIntV (VString s) = toInt_string s"
| "toIntV _ = 0"

fun toBoolV :: "QVariant \<Rightarrow> bool" where
  "toBoolV (VBool b) = b"
| "toBoolV (VInt i) = (i \<noteq> 0)"
| "toBoolV (VString s) = (\<not> (s = [] \<or> s = ''0'' \<or> toLower s = ''false''))"
| "toBoolV _ = False"

fun toUuidV :: "QVariant \<Rightarrow> QUuid" where
  "toUuidV (VUuid u) = u"
| "toUuidV _ = nullUuid"

fun toMapV :: "QVariant \<Rightarrow> QVariantMap" where
  "toMapV (VMap m) = m"
| "toMapV _ = []"

fun toListV :: "QVariant \<Rightarrow> QVariantList" where
  "toListV (VList l) = l"
| "toListV _ = []"

fun toStringListV :: "QVariant \<Rightarrow> QString list" where
  "toStringListV (VList l) = map toStringV l"
| "toStringListV (VString s) = [s]"
| "toStringListV _ = []"

fun canConvertList :: "QVariant \<Rightarrow> bool" where
  "canConvertList (VList l) = True"
| "canConvertList _ = False"

fun canConvertMap :: "QVariant \<Rightarrow> bool" where
  "canConvertMap (VMap m) = True"
| "canConvertMap _ = False"

fun canConvertString :: "QVariant \<Rightarrow> bool" where
  "canConvertString (VBool b) = True"
| "canConvertString (VInt i) = True"
| "canConvertString (VDouble t) = True"
| "canConvertString (VString s) = True"
| "canConvertString (VUuid u) = True"
| "canConvertString _ = False"

section \<open>NodePermissions\<close>

datatype Permission =
    canConnectToDomain
  | canAdjustLocks
  | canRezPermanentEntities
  | canRezTemporaryEntities
  | canWriteToAssetServer
  | canConnectPastMaxCapacity

type_synonym Permissions = "Permission set"

type_synonym NodePermissionsKey = "QString \<times> int"

record NodePermissions =
  m_id :: QString
  m_rank :: int
  m_groupIDSet :: bool
  m_groupID :: QUuid
  permissions :: Permissions

text \<open>
  Modelled from the spec: the class declaration (\<open>NodePermissions.h\<close>) is not among the sources,
  so the permission set, the two constructors from a name and from a key, the accessors and the
  single-capability operations are written from the data model of the spec: a permission set is a
  set of the six capabilities with union, intersection and complement; a fresh entry has no
  capability, no group and the rank of its key (0 for a name); names are kept in lower case; an
  entry with \<open>isGroup\<close> has a non-null group id.
\<close>

definition NodePermissions_name :: "QString \<Rightarrow> NodePermissions" where
  "NodePermissions_name name =
     \<lparr>m_id = toLower name, m_rank = 0, m_groupIDSet = False, m_groupID = nullUuid, permissions = {}\<rparr>"

definition NodePermissions_key :: "NodePermissionsKey \<Rightarrow> NodePermissions" where
  "NodePermissions_key key =
     \<lparr>m_id = toLower (fst key), m_rank = snd key, m_groupIDSet = False, m_groupID = nullUuid,
      permissions = {}\<rparr>"

definition getID :: "NodePermissions \<Rightarrow> QString" where
  "getID p = m_id p"

definition getRank :: "NodePermissions \<Rightarrow> int" where
  "getRank p = m_rank p"

definition getKey :: "NodePermissions \<Rightarrow> NodePermissionsKey" where
  "getKey p = (m_id p, m_rank p)"

definition getGroupID :: "NodePermissions \<Rightarrow> QUuid" where
  "getGroupID p = m_groupID p"

definition isGroup :: "NodePermissions \<Rightarrow> bool" where
  "isGroup p = m_groupIDSet p"

definition setGroupID_perms :: "QUuid \<Rightarrow> NodePermissions \<Rightarrow> NodePermissions" where
  "setGroupID_perms groupID p =
     p\<lparr>m_groupID := groupID, m_groupIDSet := (if groupID \<noteq> nullUuid then True else m_groupIDSet p)\<rparr>"

definition can :: "NodePermissions \<Rightarrow> Permission \<Rightarrow> bool" where
  "can p x = (x \<in> permissions p)"

definition set_perm :: "Permission \<Rightarrow> NodePermissions \<Rightarrow> NodePermissions" where
  "set_perm x p = p\<lparr>permissions := insert x (permissions p)\<rparr>"

definition clear_perm :: "Permission \<Rightarrow> NodePermissions \<Rightarrow> NodePermissions" where
  "clear_perm x p = p\<lparr>permissions := permissions p - {x}\<rparr>"

text \<open>From here on the definitions follow \<open>NodePermissions.cpp\<close>.\<close>

definition standardNameLocalhost :: NodePermissionsKey where
  "standardNameLocalhost = (''localhost'', 0)"

definition standardNameLoggedIn :: NodePermissionsKey where
  "standardNameLoggedIn = (''logged-in'', 0)"

definition standardNameAnonymous :: NodePermissionsKey where
  "standardNameAnonymous = (''anonymous'', 0)"

definition standardNameFriends :: NodePermissionsKey where
  "standardNameFriends = (''friends'', 0)"

definition standardNames :: "QString list" where
  "standardNames =
     [fst standardNameLocalhost, fst standardNameLoggedIn, fst standardNameAnonymous,
      fst standardNameFriends]"

definition flag :: "bool \<Rightarrow> Permission \<Rightarrow> Permissions" where
  "flag b x = (if b then {x} else {})"

definition NodePermissions_map :: "QVariantMap \<Rightarrow> NodePermissions" where
  "NodePermissions_map perms =
     (let gid = (if contains perms ''group_id'' then toUuidV (valueOf perms ''group_id'') else nullUuid)
      in \<lparr>m_id = toLower (toStringV (valueOf perms ''permissions_id'')),
          m_rank = (if contains perms ''rank'' then toIntV (valueOf perms ''rank'') else 0),
          m_groupIDSet = (contains perms ''group_id'' \<and> gid \<noteq> nullUuid),
          m_groupID = gid,
          permissions =
            flag (toBoolV (valueOf perms ''id_can_connect'')) canConnectToDomain
            \<union> flag (toBoolV (valueOf perms ''id_can_adjust_locks'')) canAdjustLocks
            \<union> flag (toBoolV (valueOf perms ''id_can_rez'')) canRezPermanentEntities
            \<union> flag (toBoolV (valueOf perms ''id_can_rez_tmp'')) canRezTemporaryEntities
            \<union> flag (toBoolV (valueOf perms ''id_can_write_to_asset_server'')) canWriteToAssetServer
            \<union> flag (toBoolV (valueOf perms ''id_can_connect_past_max_capacity''))
                canConnectPastMaxCapacity\<rparr>)"

text \<open>
  \<open>toVariant\<close>: the rank name is written when the vector of rank names is longer than the rank.
  For a negative rank the C++ subscript is out of range; the model writes no rank name then.
\<close>

definition toVariant :: "QString list \<Rightarrow> NodePermissions \<Rightarrow> QVariant" where
  "toVariant rankNames p =
     VMap ([(''permissions_id'', VString (m_id p))]
       @ (if m_groupIDSet p
          then [(''group_id'', VUuid (m_groupID p)), (''rank'', VInt (m_rank p))]
             @ (if int (length rankNames) > m_rank p \<and> 0 \<le> m_rank p
                then [(''rank_name'', VString (rankNames ! nat (m_rank p)))] else [])
          else [])
       @ [(''id_can_connect'', VBool (can p canConnectToDomain)),
          (''id_can_adjust_locks'', VBool (can p canAdjustLocks)),
          (''id_can_rez'', VBool (can p canRezPermanentEntities)),
          (''id_can_rez_tmp'', VBool (can p canRezTemporaryEntities)),
          (''id_can_write_to_asset_server'', VBool (can p canWriteToAssetServer)),
          (''id_can_connect_past_max_capacity'', VBool (can p canConnectPastMaxCapacity))])"

definition setAll :: "bool \<Rightarrow> NodePermissions \<Rightarrow> NodePermissions" where
  "setAll v p = p\<lparr>permissions := (if v then - {} else {})\<rparr>"

definition or_assign :: "NodePermissions \<Rightarrow> NodePermissions \<Rightarrow> NodePermissions" where
  "or_assign lhs rhs = lhs\<lparr>permissions := permissions lhs \<union> permissions rhs\<rparr>"

definition and_assign :: "NodePermissions \<Rightarrow> NodePermissions \<Rightarrow> NodePermissions" where
  "and_assign lhs rhs = lhs\<lparr>permissions := permissions lhs \<inter> permissions rhs\<rparr>"

definition complement :: "NodePermissions \<Rightarrow> NodePermissions" where
  "complement p = p\<lparr>permissions := - permissions p\<rparr>"

section \<open>Configuration store\<close>

text \<open>
  Modelled from the spec: \<open>HifiConfigVariantMap\<close> (the master, user and merged maps, the key-path
  helper \<open>valueForKeyPath\<close> and the reload) is not among the sources. A key path is dot-delimited
  and each segment indexes into a nested map; the model takes the path already split into its
  segments. \<open>valueForKeyPath\<close> is the lookup (absent is \<open>None\<close>), \<open>setKeyPath\<close> is the
  get-or-create handle followed by the assignment through it, creating intermediate maps as
  needed. The merged map is the user map with the master map as fallback at every key path.
\<close>

fun valueForKeyPath :: "QVariantMap \<Rightarrow> QString list \<Rightarrow> QVariant option" where
  "valueForKeyPath m [] = None"
| "valueForKeyPath m [k] = map_of m k"
| "valueForKeyPath m (k # ks) =
     (case map_of m k of Some (VMap sub) \<Rightarrow> valueForKeyPath sub ks | _ \<Rightarrow> None)"

fun setKeyPath :: "QVariantMap \<Rightarrow> QString list \<Rightarrow> QVariant \<Rightarrow> QVariantMap" where
  "setKeyPath m [] v = m"
| "setKeyPath m [k] v = AList.update k v m"
| "setKeyPath m (k # ks) v =
     AList.update k (VMap (setKeyPath (case map_of m k of Some (VMap sub) \<Rightarrow> sub | _ \<Rightarrow> []) ks v)) m"

definition getOrCreate :: "QVariantMap \<Rightarrow> QString list \<Rightarrow> QVariantMap" where
  "getOrCreate m path = (case valueForKeyPath m path of None \<Rightarrow> setKeyPath m path Invalid | Some v \<Rightarrow> m)"

fun mergeVariant :: "QVariant \<Rightarrow> QVariant \<Rightarrow> QVariant"
  and mergeEntries :: "QVariantMap \<Rightarrow> QVariantMap \<Rightarrow> QVariantMap" where
  "mergeVariant (VMap m) u =
     (case u of
        VMap um \<Rightarrow> VMap (mergeEntries m um @ filter (\<lambda>kv. map_of m (fst kv) = None) um)
      | _ \<Rightarrow> u)"
| "mergeVariant Invalid u = u"
| "mergeVariant (VBool b) u = u"
| "mergeVariant (VInt i) u = u"
| "mergeVariant (VDouble t) u = u"
| "mergeVariant (VString s) u = u"
| "mergeVariant (VUuid g) u = u"
| "mergeVariant (VList l) u = u"
| "mergeEntries [] um = []"
| "mergeEntries (kv # rest) um =
     (fst kv, case map_of um (fst kv) of None \<Rightarrow> snd kv | Some uv \<Rightarrow> mergeVariant (snd kv) uv)
       # mergeEntries rest um"

definition mergeMasterAndUser :: "QVariantMap \<Rightarrow> QVariantMap \<Rightarrow> QVariantMap" where
  "mergeMasterAndUser master user = toMapV (mergeVariant (VMap master) (VMap user))"

section \<open>The settings manager\<close>

type_synonym NodePermissionsMap = "(NodePermissionsKey \<times> NodePermissions) list"
type_synonym GroupByUUIDKey = "QUuid \<times> int"

text \<open>
  Modelled from the spec: the container \<open>NodePermissionsMap\<close> is declared in a header that is not
  among the sources. The spec describes each of the four sets as a mapping from key to entry, with
  principal names compared in lower case. The model keeps an association list under lower-cased
  keys; \<open>npm_keys\<close> stands for the (unspecified) iteration order of the underlying hash. The
  mutable subscript \<open>m[key]\<close> yields the entry under the key and first stores the default entry
  for the key when there is none (\<open>npm_subscript\<close>).
\<close>

definition lowerKey :: "NodePermissionsKey \<Rightarrow> NodePermissionsKey" where
  "lowerKey k = (toLower (fst k), snd k)"

definition npm_contains :: "NodePermissionsMap \<Rightarrow> NodePermissionsKey \<Rightarrow> bool" where
  "npm_contains m k = (map_of m (lowerKey k) \<noteq> None)"

definition npm_value :: "NodePermissionsMap \<Rightarrow> NodePermissionsKey \<Rightarrow> NodePermissions" where
  "npm_value m k = (case map_of m (lowerKey k) of Some p \<Rightarrow> p | None \<Rightarrow> NodePermissions_key k)"

definition npm_assign :: "NodePermissionsKey \<Rightarrow> NodePermissions \<Rightarrow> NodePermissionsMap \<Rightarrow> NodePermissionsMap" where
  "npm_assign k p m = AList.update (lowerKey k) p m"

definition npm_subscript :: "NodePermissionsKey \<Rightarrow> NodePermissionsMap \<Rightarrow> NodePermissionsMap" where
  "npm_subscript k m = (if npm_contains m k then m else npm_assign k (NodePermissions_key k) m)"

definition npm_keys :: "NodePermissionsMap \<Rightarrow> NodePermissionsKey list" where
  "npm_keys m = map fst m"

text \<open>
  The two indexes by group UUID hold shared pointers to entries. The code reads only the key of
  the entry behind such a pointer (\<open>getKey\<close>), and the id and rank of an entry never change after
  its construction, so the model stores that key.
\<close>

record DomainServerSettingsManager =
  descriptionArray :: QVariantList
  masterConfig :: QVariantMap
  userConfig :: QVariantMap
  mergedConfig :: QVariantMap
  standardAgentPermissions :: NodePermissionsMap
  agentPermissions :: NodePermissionsMap
  groupPermissions :: NodePermissionsMap
  groupForbiddens :: NodePermissionsMap
  groupPermissionsByUUID :: "(GroupByUUIDKey \<times> NodePermissionsKey) list"
  groupForbiddensByUUID :: "(GroupByUUIDKey \<times> NodePermissionsKey) list"
  groupIDs :: "(QString \<times> QUuid) list"
  groupNames :: "(QUuid \<times> QString) list"
  groupRanks :: "(QUuid \<times> QString list) list"

text \<open>
  The four key paths are constants of the missing header \<open>DomainServerSettingsManager.h\<close>; the
  code treats them as subsections of the \<open>security\<close> section (see \<open>packPermissionsForMap\<close>).
\<close>

definition AGENT_STANDARD_PERMISSIONS_KEYPATH :: "QString list" where
  "AGENT_STANDARD_PERMISSIONS_KEYPATH = [''security'', ''standard_permissions'']"

definition AGENT_PERMISSIONS_KEYPATH :: "QString list" where
  "AGENT_PERMISSIONS_KEYPATH = [''security'', ''permissions'']"

definition GROUP_PERMISSIONS_KEYPATH :: "QString list" where
  "GROUP_PERMISSIONS_KEYPATH = [''security'', ''group_permissions'']"

definition GROUP_FORBIDDENS_KEYPATH :: "QString list" where
  "GROUP_FORBIDDENS_KEYPATH = [''security'', ''group_forbiddens'']"

subsection \<open>Sorting and persisting\<close>

definition permissionVariantLessThan :: "QVariant \<Rightarrow> QVariant \<Rightarrow> bool" where
  "permissionVariantLessThan v1 v2 =
     (if \<not> canConvertMap v1 \<or> \<not> canConvertMap v2 then str_less (toStringV v1) (toStringV v2)
      else
        let m1 = toMapV v1; m2 = toMapV v2 in
        if \<not> contains m1 ''permissions_id'' \<or> \<not> contains m2 ''permissions_id''
        then str_less (toStringV v1) (toStringV v2)
        else if contains m1 ''rank_name'' \<and> contains m2 ''rank_name''
                \<and> toStringV (valueOf m1 ''permissions_id'') = toStringV (valueOf m2 ''permissions_id'')
        then str_less (toStringV (valueOf m1 ''rank_name'')) (toStringV (valueOf m2 ''rank_name''))
        else str_less (toStringV (valueOf m1 ''permissions_id'')) (toStringV (valueOf m2 ''permissions_id'')))"

text \<open>
  \<open>std::sort\<close> with a comparator: the model is the insertion sort that keeps the order of elements
  the comparator does not separate.
\<close>

fun insert_sorted :: "('a \<Rightarrow> 'a \<Rightarrow> bool) \<Rightarrow> 'a \<Rightarrow> 'a list \<Rightarrow> 'a list" where
  "insert_sorted lt x [] = [x]"
| "insert_sorted lt x (y # ys) = (if lt y x \<or> \<not> lt x y then y # insert_sorted lt x ys else x # y # ys)"

definition std_sort :: "('a \<Rightarrow> 'a \<Rightarrow> bool) \<Rightarrow> 'a list \<Rightarrow> 'a list" where
  "std_sort lt xs = foldl (\<lambda>acc x. insert_sorted lt x acc) [] xs"

definition sortListAt :: "QString list \<Rightarrow> QVariantMap \<Rightarrow> QVariantMap" where
  "sortListAt path m =
     (case valueForKeyPath m path of
        Some (VList l) \<Rightarrow> setKeyPath m path (VList (std_sort permissionVariantLessThan l))
      | _ \<Rightarrow> m)"

definition sortPermissions :: "DomainServerSettingsManager \<Rightarrow> DomainServerSettingsManager" where
  "sortPermissions s =
     s\<lparr>userConfig :=
         sortListAt AGENT_PERMISSIONS_KEYPATH (sortListAt AGENT_STANDARD_PERMISSIONS_KEYPATH (userConfig s))\<rparr>"

text \<open>
  \<open>persistToFile\<close> sorts and writes the user map to the settings file. The file is not part of
  the model: the write is taken to succeed, and \<open>loadMasterAndUserConfig\<close>, which the code always
  calls right after a persist, reads the same user map back and merges it with the master map.
\<close>

definition persistToFile :: "DomainServerSettingsManager \<Rightarrow> DomainServerSettingsManager" where
  "persistToFile s = sortPermissions s"

definition loadMasterAndUserConfig :: "DomainServerSettingsManager \<Rightarrow> DomainServerSettingsManager" where
  "loadMasterAndUserConfig s = s\<lparr>mergedConfig := mergeMasterAndUser (masterConfig s) (userConfig s)\<rparr>"

definition mergeMasterAndUserConfigs :: "DomainServerSettingsManager \<Rightarrow> DomainServerSettingsManager" where
  "mergeMasterAndUserConfigs s = s\<lparr>mergedConfig := mergeMasterAndUser (masterConfig s) (userConfig s)\<rparr>"

subsection \<open>Packing\<close>

definition rankNamesFor :: "DomainServerSettingsManager \<Rightarrow> QUuid \<Rightarrow> QString list" where
  "rankNamesFor s g = (case map_of (groupRanks s) g of None \<Rightarrow> [] | Some r \<Rightarrow> r)"

definition permsToVariant :: "DomainServerSettingsManager \<Rightarrow> NodePermissions \<Rightarrow> QVariant" where
  "permsToVariant s perms =
     (if isGroup perms then toVariant (rankNamesFor s (getGroupID perms)) perms else toVariant [] perms)"

definition ensureSecurityAndList :: "QString list \<Rightarrow> QVariantMap \<Rightarrow> QVariantMap" where
  "ensureSecurityAndList keyPath u =
     (let u1 = (case valueForKeyPath u [''security''] of
                  Some (VMap m) \<Rightarrow> u
                | _ \<Rightarrow> setKeyPath u [''security''] (VMap []));
          u2 = (case valueForKeyPath u1 keyPath of
                  Some (VList l) \<Rightarrow> u1
                | _ \<Rightarrow> setKeyPath u1 keyPath (VList []))
      in u2)"

definition packPermissionsForMap ::
  "NodePermissionsMap \<Rightarrow> QString list \<Rightarrow> DomainServerSettingsManager \<Rightarrow> DomainServerSettingsManager" where
  "packPermissionsForMap agentPerms keyPath s =
     s\<lparr>userConfig :=
         setKeyPath (ensureSecurityAndList keyPath (userConfig s)) keyPath
           (VList (map (\<lambda>userKey. permsToVariant s (npm_value agentPerms userKey)) (npm_keys agentPerms)))\<rparr>"

definition packPermissions :: "DomainServerSettingsManager \<Rightarrow> DomainServerSettingsManager" where
  "packPermissions s =
     (let s1 = packPermissionsForMap (standardAgentPermissions s) AGENT_STANDARD_PERMISSIONS_KEYPATH s;
          s2 = packPermissionsForMap (agentPermissions s1) AGENT_PERMISSIONS_KEYPATH s1;
          s3 = packPermissionsForMap (groupPermissions s2) GROUP_PERMISSIONS_KEYPATH s2;
          s4 = packPermissionsForMap (groupForbiddens s3) GROUP_FORBIDDENS_KEYPATH s3
      in loadMasterAndUserConfig (persistToFile s4))"

subsection \<open>Group identities and rank coverage\<close>

definition needsGroupID :: "QString \<Rightarrow> NodePermissions \<Rightarrow> bool" where
  "needsGroupID groupName perms = (toLower (getID perms) = toLower groupName \<and> \<not> isGroup perms)"

definition setGroupID_map :: "QString \<Rightarrow> QUuid \<Rightarrow> NodePermissionsMap \<Rightarrow> NodePermissionsMap" where
  "setGroupID_map groupName groupID m =
     map (\<lambda>kp. (fst kp, if needsGroupID groupName (snd kp) then setGroupID_perms groupID (snd kp) else snd kp)) m"

definition setGroupID ::
  "QString \<Rightarrow> QUuid \<Rightarrow> DomainServerSettingsManager \<Rightarrow> bool \<times> DomainServerSettingsManager" where
  "setGroupID groupName groupID s =
     (list_ex (\<lambda>kp. needsGroupID groupName (snd kp)) (groupPermissions s)
        \<or> list_ex (\<lambda>kp. needsGroupID groupName (snd kp)) (groupForbiddens s),
      s\<lparr>groupIDs := AList.update (toLower groupName) groupID (groupIDs s),
        groupNames := AList.update groupID groupName (groupNames s),
        groupPermissions := setGroupID_map groupName groupID (groupPermissions s),
        groupForbiddens := setGroupID_map groupName groupID (groupForbiddens s)\<rparr>)"

definition groupIDsOf :: "NodePermissionsMap \<Rightarrow> QUuid list" where
  "groupIDsOf m = remdups (map getGroupID (filter isGroup (map (npm_value m) (npm_keys m))))"

definition getGroupIDs :: "DomainServerSettingsManager \<Rightarrow> QUuid list" where
  "getGroupIDs s = groupIDsOf (groupPermissions s)"

definition getBlacklistGroupIDs :: "DomainServerSettingsManager \<Rightarrow> QUuid list" where
  "getBlacklistGroupIDs s = groupIDsOf (groupForbiddens s)"

definition groupNameFor :: "DomainServerSettingsManager \<Rightarrow> QUuid \<Rightarrow> QString" where
  "groupNameFor s g = (case map_of (groupNames s) g of None \<Rightarrow> [] | Some n \<Rightarrow> n)"

type_synonym RankCoverage = "bool \<times> NodePermissionsMap \<times> (GroupByUUIDKey \<times> NodePermissionsKey) list"

definition ensureRank :: "QString \<Rightarrow> QUuid \<Rightarrow> RankCoverage \<Rightarrow> nat \<Rightarrow> RankCoverage" where
  "ensureRank groupName groupID acc rank =
     (let changed = fst acc; m = fst (snd acc); byUUID = snd (snd acc);
          nameKey = (groupName, int rank); idKey = (groupID, int rank)
      in if npm_contains m nameKey
         then (changed, m, AList.update idKey (getKey (npm_value m nameKey)) byUUID)
         else (let perms = setGroupID_perms groupID (NodePermissions_key nameKey)
               in (True, npm_assign nameKey perms m, AList.update idKey (getKey perms) byUUID)))"

definition ensureGroup :: "DomainServerSettingsManager \<Rightarrow> RankCoverage \<Rightarrow> QUuid \<Rightarrow> RankCoverage" where
  "ensureGroup s acc groupID =
     foldl (ensureRank (groupNameFor s groupID) groupID) acc [0..<length (rankNamesFor s groupID)]"

text \<open>
  Reading \<open>_groupNames[groupID]\<close> and \<open>_groupRanks[groupID]\<close> through the mutable subscript of a
  hash stores the default value (the empty name, the empty vector) for an unknown group.
\<close>

definition touch :: "'v \<Rightarrow> ('k \<times> 'v) list \<Rightarrow> 'k \<Rightarrow> ('k \<times> 'v) list" where
  "touch d al k = (if map_of al k = None then AList.update k d al else al)"

definition ensurePermissionsForGroupRanks ::
  "DomainServerSettingsManager \<Rightarrow> bool \<times> DomainServerSettingsManager" where
  "ensurePermissionsForGroupRanks s =
     (let permissionGroupIDs = getGroupIDs s;
          r1 = foldl (ensureGroup s) (False, groupPermissions s, groupPermissionsByUUID s) permissionGroupIDs;
          forbiddenGroupIDs = getBlacklistGroupIDs s;
          r2 = foldl (ensureGroup s) (fst r1, groupForbiddens s, groupForbiddensByUUID s) forbiddenGroupIDs
      in (fst r2,
          s\<lparr>groupPermissions := fst (snd r1), groupPermissionsByUUID := snd (snd r1),
            groupForbiddens := fst (snd r2), groupForbiddensByUUID := snd (snd r2),
            groupNames := foldl (touch []) (groupNames s) (permissionGroupIDs @ forbiddenGroupIDs),
            groupRanks := foldl (touch []) (groupRanks s) (permissionGroupIDs @ forbiddenGroupIDs)\<rparr>))"

subsection \<open>Unpacking\<close>

record UnpackLocals =
  foundLocalhost :: bool
  foundAnonymous :: bool
  foundLoggedIn :: bool
  foundFriends :: bool
  needPack :: bool

definition ensureList :: "QString list \<Rightarrow> QVariantMap \<Rightarrow> QVariantMap" where
  "ensureList keyPath u =
     (case valueForKeyPath u keyPath of Some (VList l) \<Rightarrow> u | _ \<Rightarrow> setKeyPath u keyPath (VList []))"

definition listAt :: "QVariantMap \<Rightarrow> QString list \<Rightarrow> QVariantList" where
  "listAt u keyPath = (case valueForKeyPath u keyPath of Some v \<Rightarrow> toListV v | None \<Rightarrow> [])"

text \<open>The body shared by the four loops: a duplicate key is merged with \<open>|=\<close> and asks for a pack.\<close>

definition insertOrMerge ::
  "NodePermissionsKey \<Rightarrow> NodePermissions \<Rightarrow> bool \<times> NodePermissionsMap \<Rightarrow> bool \<times> NodePermissionsMap" where
  "insertOrMerge idKey perms acc =
     (if npm_contains (snd acc) idKey
      then (True, npm_assign idKey (or_assign (npm_value (snd acc) idKey) perms) (snd acc))
      else (fst acc, npm_assign idKey perms (snd acc)))"

definition unpackStandard ::
  "UnpackLocals \<times> DomainServerSettingsManager \<Rightarrow> QVariant \<Rightarrow> UnpackLocals \<times> DomainServerSettingsManager" where
  "unpackStandard acc permsHash =
     (let l = fst acc; s = snd acc;
          perms = NodePermissions_map (toMapV permsHash);
          idKey = (getID perms, 0);
          l1 = l\<lparr>foundLocalhost := foundLocalhost l \<or> idKey = standardNameLocalhost,
                 foundAnonymous := foundAnonymous l \<or> idKey = standardNameAnonymous,
                 foundLoggedIn := foundLoggedIn l \<or> idKey = standardNameLoggedIn,
                 foundFriends := foundFriends l \<or> idKey = standardNameFriends\<rparr>;
          r = insertOrMerge idKey perms (needPack l1, standardAgentPermissions s)
      in (l1\<lparr>needPack := fst r\<rparr>, s\<lparr>standardAgentPermissions := snd r\<rparr>))"

definition unpackAgent ::
  "UnpackLocals \<times> DomainServerSettingsManager \<Rightarrow> QVariant \<Rightarrow> UnpackLocals \<times> DomainServerSettingsManager" where
  "unpackAgent acc permsHash =
     (let l = fst acc; s = snd acc;
          perms = NodePermissions_map (toMapV permsHash);
          idKey = (getID perms, 0);
          r = insertOrMerge idKey perms (needPack l, agentPermissions s)
      in (l\<lparr>needPack := fst r\<rparr>, s\<lparr>agentPermissions := snd r\<rparr>))"

definition unpackGroup ::
  "UnpackLocals \<times> DomainServerSettingsManager \<Rightarrow> QVariant \<Rightarrow> UnpackLocals \<times> DomainServerSettingsManager" where
  "unpackGroup acc permsHash =
     (let l = fst acc; s = snd acc;
          perms = NodePermissions_map (toMapV permsHash);
          idKey = getKey perms;
          r = insertOrMerge idKey perms (needPack l, groupPermissions s);
          s1 = s\<lparr>groupPermissions := snd r\<rparr>
      in if isGroup perms
         then (let s2 = s1\<lparr>groupPermissionsByUUID :=
                             AList.update (getGroupID perms, getRank perms)
                               (getKey (npm_value (groupPermissions s1) idKey)) (groupPermissionsByUUID s1)\<rparr>;
                   c = setGroupID (getID perms) (getGroupID perms) s2
               in (l\<lparr>needPack := (fst r \<or> fst c)\<rparr>, snd c))
         else (l\<lparr>needPack := fst r\<rparr>, s1))"

text \<open>
  In the loop over the forbidden groups the entry hooked into \<open>_groupForbiddensByUUID\<close> is
  \<open>_groupPermissions[idKey]\<close> (line 484), read through the mutable subscript of the
  group-permissions map.
\<close>

definition unpackForbidden ::
  "UnpackLocals \<times> DomainServerSettingsManager \<Rightarrow> QVariant \<Rightarrow> UnpackLocals \<times> DomainServerSettingsManager" where
  "unpackForbidden acc permsHash =
     (let l = fst acc; s = snd acc;
          perms = NodePermissions_map (toMapV permsHash);
          idKey = getKey perms;
          r = insertOrMerge idKey perms (needPack l, groupForbiddens s);
          s1 = s\<lparr>groupForbiddens := snd r\<rparr>
      in if isGroup perms
         then (let s2 = s1\<lparr>groupPermissions := npm_subscript idKey (groupPermissions s1)\<rparr>;
                   s3 = s2\<lparr>groupForbiddensByUUID :=
                             AList.update (getGroupID perms, getRank perms)
                               (getKey (npm_value (groupPermissions s2) idKey)) (groupForbiddensByUUID s2)\<rparr>;
                   c = setGroupID (getID perms) (getGroupID perms) s3
               in (l\<lparr>needPack := (fst r \<or> fst c)\<rparr>, snd c))
         else (l\<lparr>needPack := fst r\<rparr>, s1))"

definition addMissingStandard ::
  "bool \<Rightarrow> NodePermissions \<Rightarrow> UnpackLocals \<times> DomainServerSettingsManager \<Rightarrow> UnpackLocals \<times> DomainServerSettingsManager" where
  "addMissingStandard found perms acc =
     (if \<not> found
      then ((fst acc)\<lparr>needPack := True\<rparr>,
            (snd acc)\<lparr>standardAgentPermissions :=
                        npm_assign (getKey perms) perms (standardAgentPermissions (snd acc))\<rparr>)
      else acc)"

definition unpackLists ::
  "DomainServerSettingsManager \<Rightarrow> UnpackLocals \<times> DomainServerSettingsManager" where
  "unpackLists s =
     (let s0 = s\<lparr>standardAgentPermissions := [], agentPermissions := [], groupPermissions := [],
                 groupForbiddens := [],
                 userConfig := ensureList GROUP_FORBIDDENS_KEYPATH (ensureList GROUP_PERMISSIONS_KEYPATH
                   (ensureList AGENT_PERMISSIONS_KEYPATH
                     (ensureList AGENT_STANDARD_PERMISSIONS_KEYPATH (userConfig s))))\<rparr>;
          l0 = \<lparr>foundLocalhost = False, foundAnonymous = False, foundLoggedIn = False,
                foundFriends = False, needPack = False\<rparr>;
          a1 = foldl unpackStandard (l0, s0) (listAt (userConfig s0) AGENT_STANDARD_PERMISSIONS_KEYPATH);
          a2 = foldl unpackAgent a1 (listAt (userConfig s0) AGENT_PERMISSIONS_KEYPATH);
          a3 = foldl unpackGroup a2 (listAt (userConfig s0) GROUP_PERMISSIONS_KEYPATH);
          a4 = foldl unpackForbidden a3 (listAt (userConfig s0) GROUP_FORBIDDENS_KEYPATH)
      in a4)"

definition addStandardNames ::
  "UnpackLocals \<times> DomainServerSettingsManager \<Rightarrow> UnpackLocals \<times> DomainServerSettingsManager" where
  "addStandardNames a4 =
     (let a5 = addMissingStandard (foundLocalhost (fst a4))
                 (setAll True (NodePermissions_key standardNameLocalhost)) a4;
          a6 = addMissingStandard (foundAnonymous (fst a5)) (NodePermissions_key standardNameAnonymous) a5;
          a7 = addMissingStandard (foundLoggedIn (fst a6)) (NodePermissions_key standardNameLoggedIn) a6;
          a8 = addMissingStandard (foundFriends (fst a7)) (NodePermissions_key standardNameFriends) a7
      in a8)"

text \<open>
  \<open>unpackPermissions\<close> returns the state together with the final value of the local \<open>needPack\<close>.
  The closing call of \<open>apiRefreshGroupInformation\<close> only sends asynchronous requests to the
  directory service and is not part of the model.
\<close>

definition unpackPermissions_needPack ::
  "DomainServerSettingsManager \<Rightarrow> bool \<times> DomainServerSettingsManager" where
  "unpackPermissions_needPack s =
     (let a8 = addStandardNames (unpackLists s);
          e = ensurePermissionsForGroupRanks (snd a8);
          dirty = (needPack (fst a8) \<or> fst e)
      in (dirty, if dirty then packPermissions (snd e) else snd e))"

definition unpackPermissions :: "DomainServerSettingsManager \<Rightarrow> DomainServerSettingsManager" where
  "unpackPermissions s = snd (unpackPermissions_needPack s)"

subsection \<open>Effective permissions\<close>

text \<open>The default-constructed entry with every capability cleared; its id is not used.\<close>

definition nullPermissions :: NodePermissions where
  "nullPermissions = setAll False (NodePermissions_name [])"

definition getStandardPermissionsForName :: "DomainServerSettingsManager \<Rightarrow> NodePermissionsKey \<Rightarrow> NodePermissions" where
  "getStandardPermissionsForName s name =
     (if npm_contains (standardAgentPermissions s) name then npm_value (standardAgentPermissions s) name
      else nullPermissions)"


definition getPermissionsForGroup :: "DomainServerSettingsManager \<Rightarrow> QString \<Rightarrow> int \<Rightarrow> NodePermissions" where
  "getPermissionsForGroup s groupName rank =
     (if npm_contains (groupPermissions s) (groupName, rank) then npm_value (groupPermissions s) (groupName, rank)
      else nullPermissions)"

definition getPermissionsForGroupID :: "DomainServerSettingsManager \<Rightarrow> QUuid \<Rightarrow> int \<Rightarrow> NodePermissions" where
  "getPermissionsForGroupID s groupID rank =
     (case map_of (groupPermissionsByUUID s) (groupID, rank) of
        None \<Rightarrow> nullPermissions
      | Some groupKey \<Rightarrow> getPermissionsForGroup s (fst groupKey) (snd groupKey))"

definition getForbiddensForGroup :: "DomainServerSettingsManager \<Rightarrow> QString \<Rightarrow> int \<Rightarrow> NodePermissions" where
  "getForbiddensForGroup s groupName rank =
     (if npm_contains (groupForbiddens s) (groupName, rank) then npm_value (groupForbiddens s) (groupName, rank)
      else nullPermissions)"


section \<open>Invariants and example states\<close>

definition std_inv :: "UnpackLocals \<times> DomainServerSettingsManager \<Rightarrow> bool" where
  "std_inv a \<longleftrightarrow>
     (foundLocalhost (fst a) \<longleftrightarrow> npm_contains (standardAgentPermissions (snd a)) standardNameLocalhost)
   \<and> (foundAnonymous (fst a) \<longleftrightarrow> npm_contains (standardAgentPermissions (snd a)) standardNameAnonymous)
   \<and> (foundLoggedIn (fst a) \<longleftrightarrow> npm_contains (standardAgentPermissions (snd a)) standardNameLoggedIn)
   \<and> (foundFriends (fst a) \<longleftrightarrow> npm_contains (standardAgentPermissions (snd a)) standardNameFriends)"

definition emptyManager :: DomainServerSettingsManager where
  "emptyManager =
     \<lparr>descriptionArray = [], masterConfig = [], userConfig = [], mergedConfig = [],
      standardAgentPermissions = [], agentPermissions = [], groupPermissions = [], groupForbiddens = [],
      groupPermissionsByUUID = [], groupForbiddensByUUID = [], groupIDs = [], groupNames = [],
      groupRanks = []\<rparr>"

definition restrictedLocalhostConfig :: QVariantMap where
  "restrictedLocalhostConfig =
     [(''security'', VMap [(''standard_permissions'',
         VList [VMap [(''permissions_id'', VString ''localhost''), (''id_can_connect'', VBool False)]])])]"

text \<open>What a rank-coverage pass may do to a map: keep the old entries, add empty entries of the
  groups it processes.\<close>

definition extends :: "QUuid set \<Rightarrow> NodePermissionsMap \<Rightarrow> NodePermissionsMap \<Rightarrow> bool" where
  "extends G m m' \<longleftrightarrow>
     (\<forall>k e. map_of m k = Some e \<longrightarrow> map_of m' k = Some e)
   \<and> (\<forall>k e. map_of m k = None \<longrightarrow> map_of m' k = Some e \<longrightarrow>
          permissions e = {} \<and> (isGroup e \<longrightarrow> getGroupID e \<in> G))"

definition pilotsManager :: DomainServerSettingsManager where
  "pilotsManager =
     \<lparr>descriptionArray = [], masterConfig = [], userConfig = [], mergedConfig = [],
      standardAgentPermissions = [], agentPermissions = [],
      groupPermissions =
        [((''pilots'', 0), \<lparr>m_id = ''pilots'', m_rank = 0, m_groupIDSet = True, m_groupID = 7,
                             permissions = {canConnectToDomain}\<rparr>)],
      groupForbiddens = [],
      groupPermissionsByUUID = [], groupForbiddensByUUID = [], groupIDs = [(''pilots'', 7)],
      groupNames = [(7, ''pilots'')], groupRanks = [(7, [''owner'', ''member''])]\<rparr>"

definition permsOf :: "QVariant \<Rightarrow> NodePermissions" where
  "permsOf h = NodePermissions_map (toMapV h)"










definition groupKey :: "QVariant \<Rightarrow> NodePermissionsKey" where
  "groupKey h = getKey (permsOf h)"








section \<open>Properties\<close>

subsection \<open>Strings, keys and key paths\<close>

lemma toLower_char_idem: "toLower_char (toLower_char c) = toLower_char c"
proof (cases c)
  case (Char b0 b1 b2 b3 b4 b5 b6 b7)
  show ?thesis
  proof (cases "65 \<le> (of_char c :: nat) \<and> (of_char c :: nat) \<le> 90")
    case False
    then show ?thesis by (auto simp: toLower_char_def Let_def)
  next
    case True
    have "(96::nat) \<le> of_char (Char b0 b1 b2 b3 b4 True b6 b7)" if "b6"
      using that by simp
    moreover have "b6"
    proof (rule ccontr)
      assume "\<not> b6"
      moreover have "(of_bool b :: nat) \<le> 1" for b
        by simp
      from this [of b0] this [of b1] this [of b2] this [of b3] this [of b4] this [of b5] this [of b7]
      have "\<not> b7 \<Longrightarrow> (of_char (Char b0 b1 b2 b3 b4 b5 False b7) :: nat) \<le> 63"
        by simp
      moreover have "b7 \<Longrightarrow> (128 :: nat) \<le> of_char (Char b0 b1 b2 b3 b4 b5 False b7)"
        by simp
      ultimately show False
        using True Char by (cases b7) auto
    qed
    ultimately have "\<not> (of_char (Char b0 b1 b2 b3 b4 True b6 b7) :: nat) \<le> 90"
      by linarith
    with True Char show ?thesis
      by (simp add: toLower_char_def)
  qed
qed

lemma toLower_idem: "toLower (toLower s) = toLower s"
  by (simp add: toLower_def toLower_char_idem)

lemma lowerKey_idem: "lowerKey (lowerKey k) = lowerKey k"
  by (simp add: lowerKey_def toLower_idem)

lemma lowerKey_standard:
  "lowerKey standardNameLocalhost = standardNameLocalhost"
  "lowerKey standardNameAnonymous = standardNameAnonymous"
  "lowerKey standardNameLoggedIn = standardNameLoggedIn"
  "lowerKey standardNameFriends = standardNameFriends"
  by (simp_all add: lowerKey_def standardNameLocalhost_def standardNameAnonymous_def
      standardNameLoggedIn_def standardNameFriends_def toLower_def toLower_char_def)

lemma getID_map_lower: "toLower (getID (NodePermissions_map m)) = getID (NodePermissions_map m)"
  by (simp add: getID_def NodePermissions_map_def Let_def toLower_idem)

lemma npm_contains_assign:
  "npm_contains (npm_assign k p m) k' \<longleftrightarrow> lowerKey k = lowerKey k' \<or> npm_contains m k'"
  by (auto simp: npm_contains_def npm_assign_def update_conv')

lemma npm_value_assign:
  "npm_value (npm_assign k p m) k' = (if lowerKey k = lowerKey k' then p else npm_value m k')"
  by (auto simp: npm_value_def npm_assign_def update_conv')

lemma snd_insertOrMerge_contains:
  "npm_contains (snd (insertOrMerge k p acc)) k' \<longleftrightarrow> lowerKey k = lowerKey k' \<or> npm_contains (snd acc) k'"
  by (simp add: insertOrMerge_def npm_contains_assign)


lemma valueForKeyPath_setKeyPath_same:
  "p \<noteq> [] \<Longrightarrow> valueForKeyPath (setKeyPath m p v) p = Some v"
proof (induction m p v rule: setKeyPath.induct)
  case (1 m v)
  then show ?case by simp
next
  case (2 m k v)
  then show ?case by (simp add: update_conv')
next
  case (3 m k k' ks v)
  then show ?case by (simp add: update_conv')
qed

lemma listAt_setKeyPath_other:
  "b \<noteq> c \<Longrightarrow> listAt (setKeyPath u [a, b] (VList [])) [a, c] = listAt u [a, c]"
  by (auto simp: listAt_def update_conv' split: option.splits QVariant.splits)

lemma listAt_ensureList_same:
  "listAt (ensureList [a, b] u) [a, b] = listAt u [a, b]"
  by (auto simp: listAt_def ensureList_def update_conv' split: option.splits QVariant.splits)

lemma listAt_ensureList_other:
  "b \<noteq> c \<Longrightarrow> listAt (ensureList [a, b] u) [a, c] = listAt u [a, c]"
  by (auto simp: listAt_def ensureList_def update_conv' split: option.splits QVariant.splits)

lemmas keypath_defs = AGENT_STANDARD_PERMISSIONS_KEYPATH_def AGENT_PERMISSIONS_KEYPATH_def
  GROUP_PERMISSIONS_KEYPATH_def GROUP_FORBIDDENS_KEYPATH_def

lemma listAt_ensured:
  "listAt (ensureList GROUP_FORBIDDENS_KEYPATH (ensureList GROUP_PERMISSIONS_KEYPATH
      (ensureList AGENT_PERMISSIONS_KEYPATH (ensureList AGENT_STANDARD_PERMISSIONS_KEYPATH u))))
      AGENT_STANDARD_PERMISSIONS_KEYPATH = listAt u AGENT_STANDARD_PERMISSIONS_KEYPATH"
  "listAt (ensureList GROUP_FORBIDDENS_KEYPATH (ensureList GROUP_PERMISSIONS_KEYPATH
      (ensureList AGENT_PERMISSIONS_KEYPATH (ensureList AGENT_STANDARD_PERMISSIONS_KEYPATH u))))
      AGENT_PERMISSIONS_KEYPATH = listAt u AGENT_PERMISSIONS_KEYPATH"
  "listAt (ensureList GROUP_FORBIDDENS_KEYPATH (ensureList GROUP_PERMISSIONS_KEYPATH
      (ensureList AGENT_PERMISSIONS_KEYPATH (ensureList AGENT_STANDARD_PERMISSIONS_KEYPATH u))))
      GROUP_PERMISSIONS_KEYPATH = listAt u GROUP_PERMISSIONS_KEYPATH"
  "listAt (ensureList GROUP_FORBIDDENS_KEYPATH (ensureList GROUP_PERMISSIONS_KEYPATH
      (ensureList AGENT_PERMISSIONS_KEYPATH (ensureList AGENT_STANDARD_PERMISSIONS_KEYPATH u))))
      GROUP_FORBIDDENS_KEYPATH = listAt u GROUP_FORBIDDENS_KEYPATH"
  by (simp_all add: keypath_defs listAt_ensureList_same listAt_ensureList_other)

lemma lowerKey_getID_map: "lowerKey (getID (NodePermissions_map m), r) = (getID (NodePermissions_map m), r)"
  by (simp add: lowerKey_def getID_map_lower)

lemma unpackStandard_inv: "std_inv a \<Longrightarrow> std_inv (unpackStandard a h)"
  by (auto simp: std_inv_def unpackStandard_def Let_def snd_insertOrMerge_contains
      lowerKey_getID_map lowerKey_standard)

lemma foldl_unpackStandard_inv: "std_inv a \<Longrightarrow> std_inv (foldl unpackStandard a hs)"
  by (induction hs arbitrary: a) (simp_all add: unpackStandard_inv)

lemma unpackStandard_foundLocalhost:
  "foundLocalhost (fst (unpackStandard a h)) \<longleftrightarrow>
     foundLocalhost (fst a) \<or> toLower (toStringV (valueOf (toMapV h) ''permissions_id'')) = ''localhost''"
  by (auto simp: unpackStandard_def Let_def standardNameLocalhost_def getID_def NodePermissions_map_def)

lemma foldl_unpackStandard_foundLocalhost:
  "foundLocalhost (fst (foldl unpackStandard a hs)) \<longleftrightarrow>
     foundLocalhost (fst a)
     \<or> list_ex (\<lambda>h. toLower (toStringV (valueOf (toMapV h) ''permissions_id'')) = ''localhost'') hs"
  by (induction hs arbitrary: a) (auto simp: unpackStandard_foundLocalhost)

lemma unpackAgent_keeps:
  "standardAgentPermissions (snd (unpackAgent a h)) = standardAgentPermissions (snd a)"
  "foundLocalhost (fst (unpackAgent a h)) = foundLocalhost (fst a)"
  "foundAnonymous (fst (unpackAgent a h)) = foundAnonymous (fst a)"
  "foundLoggedIn (fst (unpackAgent a h)) = foundLoggedIn (fst a)"
  "foundFriends (fst (unpackAgent a h)) = foundFriends (fst a)"
  by (simp_all add: unpackAgent_def Let_def)

lemma unpackGroup_keeps:
  "standardAgentPermissions (snd (unpackGroup a h)) = standardAgentPermissions (snd a)"
  "foundLocalhost (fst (unpackGroup a h)) = foundLocalhost (fst a)"
  "foundAnonymous (fst (unpackGroup a h)) = foundAnonymous (fst a)"
  "foundLoggedIn (fst (unpackGroup a h)) = foundLoggedIn (fst a)"
  "foundFriends (fst (unpackGroup a h)) = foundFriends (fst a)"
  by (simp_all add: unpackGroup_def Let_def setGroupID_def)

lemma unpackForbidden_keeps:
  "standardAgentPermissions (snd (unpackForbidden a h)) = standardAgentPermissions (snd a)"
  "foundLocalhost (fst (unpackForbidden a h)) = foundLocalhost (fst a)"
  "foundAnonymous (fst (unpackForbidden a h)) = foundAnonymous (fst a)"
  "foundLoggedIn (fst (unpackForbidden a h)) = foundLoggedIn (fst a)"
  "foundFriends (fst (unpackForbidden a h)) = foundFriends (fst a)"
  by (simp_all add: unpackForbidden_def Let_def setGroupID_def)

lemma foldl_unpackAgent_keeps:
  "standardAgentPermissions (snd (foldl unpackAgent a hs)) = standardAgentPermissions (snd a)"
  "foundLocalhost (fst (foldl unpackAgent a hs)) = foundLocalhost (fst a)"
  "foundAnonymous (fst (foldl unpackAgent a hs)) = foundAnonymous (fst a)"
  "foundLoggedIn (fst (foldl unpackAgent a hs)) = foundLoggedIn (fst a)"
  "foundFriends (fst (foldl unpackAgent a hs)) = foundFriends (fst a)"
  by (induction hs arbitrary: a; simp add: unpackAgent_keeps)+

lemma foldl_unpackGroup_keeps:
  "standardAgentPermissions (snd (foldl unpackGroup a hs)) = standardAgentPermissions (snd a)"
  "foundLocalhost (fst (foldl unpackGroup a hs)) = foundLocalhost (fst a)"
  "foundAnonymous (fst (foldl unpackGroup a hs)) = foundAnonymous (fst a)"
  "foundLoggedIn (fst (foldl unpackGroup a hs)) = foundLoggedIn (fst a)"
  "foundFriends (fst (foldl unpackGroup a hs)) = foundFriends (fst a)"
  by (induction hs arbitrary: a; simp add: unpackGroup_keeps)+

lemma foldl_unpackForbidden_keeps:
  "standardAgentPermissions (snd (foldl unpackForbidden a hs)) = standardAgentPermissions (snd a)"
  "foundLocalhost (fst (foldl unpackForbidden a hs)) = foundLocalhost (fst a)"
  "foundAnonymous (fst (foldl unpackForbidden a hs)) = foundAnonymous (fst a)"
  "foundLoggedIn (fst (foldl unpackForbidden a hs)) = foundLoggedIn (fst a)"
  "foundFriends (fst (foldl unpackForbidden a hs)) = foundFriends (fst a)"
  by (induction hs arbitrary: a; simp add: unpackForbidden_keeps)+

lemma std_inv_cong:
  "standardAgentPermissions (snd b) = standardAgentPermissions (snd a) \<Longrightarrow>
   foundLocalhost (fst b) = foundLocalhost (fst a) \<Longrightarrow>
   foundAnonymous (fst b) = foundAnonymous (fst a) \<Longrightarrow>
   foundLoggedIn (fst b) = foundLoggedIn (fst a) \<Longrightarrow>
   foundFriends (fst b) = foundFriends (fst a) \<Longrightarrow> std_inv a \<Longrightarrow> std_inv b"
  by (simp add: std_inv_def)

lemma unpackLists_inv: "std_inv (unpackLists s)"
  unfolding unpackLists_def Let_def
  apply (rule std_inv_cong [OF foldl_unpackForbidden_keeps])
  apply (rule std_inv_cong [OF foldl_unpackGroup_keeps])
  apply (rule std_inv_cong [OF foldl_unpackAgent_keeps])
  apply (rule foldl_unpackStandard_inv)
  apply (simp add: std_inv_def npm_contains_def)
  done

lemma unpackLists_foundLocalhost:
  "foundLocalhost (fst (unpackLists s)) \<longleftrightarrow>
     list_ex (\<lambda>h. toLower (toStringV (valueOf (toMapV h) ''permissions_id'')) = ''localhost'')
       (listAt (userConfig s) AGENT_STANDARD_PERMISSIONS_KEYPATH)"
  by (simp add: unpackLists_def Let_def foldl_unpackForbidden_keeps foldl_unpackGroup_keeps
      foldl_unpackAgent_keeps foldl_unpackStandard_foundLocalhost listAt_ensured)

lemma getKey_standard:
  "getKey (setAll True (NodePermissions_key standardNameLocalhost)) = standardNameLocalhost"
  "getKey (NodePermissions_key standardNameAnonymous) = standardNameAnonymous"
  "getKey (NodePermissions_key standardNameLoggedIn) = standardNameLoggedIn"
  "getKey (NodePermissions_key standardNameFriends) = standardNameFriends"
  by (simp_all add: getKey_def setAll_def NodePermissions_key_def standardNameLocalhost_def
      standardNameAnonymous_def standardNameLoggedIn_def standardNameFriends_def toLower_def toLower_char_def)

lemma standard_distinct:
  "standardNameLocalhost \<noteq> standardNameAnonymous" "standardNameLocalhost \<noteq> standardNameLoggedIn"
  "standardNameLocalhost \<noteq> standardNameFriends" "standardNameAnonymous \<noteq> standardNameLoggedIn"
  "standardNameAnonymous \<noteq> standardNameFriends" "standardNameLoggedIn \<noteq> standardNameFriends"
  by (simp_all add: standardNameLocalhost_def standardNameAnonymous_def standardNameLoggedIn_def
      standardNameFriends_def)

lemma addMissingStandard_found:
  "foundLocalhost (fst (addMissingStandard f p a)) = foundLocalhost (fst a)"
  "foundAnonymous (fst (addMissingStandard f p a)) = foundAnonymous (fst a)"
  "foundLoggedIn (fst (addMissingStandard f p a)) = foundLoggedIn (fst a)"
  "foundFriends (fst (addMissingStandard f p a)) = foundFriends (fst a)"
  by (simp_all add: addMissingStandard_def)

lemma addMissingStandard_contains:
  "npm_contains (standardAgentPermissions (snd (addMissingStandard f p a))) k \<longleftrightarrow>
     (\<not> f \<and> lowerKey (getKey p) = lowerKey k) \<or> npm_contains (standardAgentPermissions (snd a)) k"
  by (auto simp: addMissingStandard_def npm_contains_assign)

lemma addMissingStandard_value:
  "npm_value (standardAgentPermissions (snd (addMissingStandard f p a))) k =
     (if \<not> f \<and> lowerKey (getKey p) = lowerKey k then p else npm_value (standardAgentPermissions (snd a)) k)"
  by (auto simp: addMissingStandard_def npm_value_assign)

lemma addStandardNames_contains:
  assumes "std_inv a"
  shows "npm_contains (standardAgentPermissions (snd (addStandardNames a))) standardNameLocalhost"
    and "npm_contains (standardAgentPermissions (snd (addStandardNames a))) standardNameAnonymous"
    and "npm_contains (standardAgentPermissions (snd (addStandardNames a))) standardNameLoggedIn"
    and "npm_contains (standardAgentPermissions (snd (addStandardNames a))) standardNameFriends"
  using assms
  by (auto simp: addStandardNames_def Let_def addMissingStandard_contains addMissingStandard_found
      getKey_standard lowerKey_standard std_inv_def)

lemma addStandardNames_localhost:
  assumes "\<not> foundLocalhost (fst a)"
  shows "npm_value (standardAgentPermissions (snd (addStandardNames a))) standardNameLocalhost =
           setAll True (NodePermissions_key standardNameLocalhost)"
  using assms
  by (simp add: addStandardNames_def Let_def addMissingStandard_value addMissingStandard_found
      getKey_standard lowerKey_standard standard_distinct standard_distinct [symmetric])

lemma ensure_keeps_standard:
  "standardAgentPermissions (snd (ensurePermissionsForGroupRanks s)) = standardAgentPermissions s"
  by (simp add: ensurePermissionsForGroupRanks_def Let_def)

lemma packPermissions_keeps_sets:
  "standardAgentPermissions (packPermissions s) = standardAgentPermissions s"
  "agentPermissions (packPermissions s) = agentPermissions s"
  "groupPermissions (packPermissions s) = groupPermissions s"
  "groupForbiddens (packPermissions s) = groupForbiddens s"
  "groupPermissionsByUUID (packPermissions s) = groupPermissionsByUUID s"
  "groupForbiddensByUUID (packPermissions s) = groupForbiddensByUUID s"
  by (simp_all add: packPermissions_def Let_def packPermissionsForMap_def persistToFile_def
      sortPermissions_def loadMasterAndUserConfig_def)

lemma unpack_standard:
  "standardAgentPermissions (unpackPermissions s) =
     standardAgentPermissions (snd (addStandardNames (unpackLists s)))"
  by (simp add: unpackPermissions_def unpackPermissions_needPack_def Let_def
      packPermissions_keeps_sets ensure_keeps_standard)

text \<open>
  C1 (amended). After every call of \<open>unpackPermissions\<close> the four standard role keys exist in
  the standard-permissions map, whatever the stored list held. The localhost entry holds every
  capability when the stored standard list has no entry named localhost (the entry is then
  synthesised); a stored localhost entry keeps the capabilities it was stored with.
\<close>

theorem unpack_standard_roles:
  "npm_contains (standardAgentPermissions (unpackPermissions s)) standardNameLocalhost
   \<and> npm_contains (standardAgentPermissions (unpackPermissions s)) standardNameAnonymous
   \<and> npm_contains (standardAgentPermissions (unpackPermissions s)) standardNameLoggedIn
   \<and> npm_contains (standardAgentPermissions (unpackPermissions s)) standardNameFriends
   \<and> (\<not> list_ex (\<lambda>h. toLower (toStringV (valueOf (toMapV h) ''permissions_id'')) = ''localhost'')
           (listAt (userConfig s) AGENT_STANDARD_PERMISSIONS_KEYPATH)
        \<longrightarrow> permissions (getStandardPermissionsForName (unpackPermissions s) standardNameLocalhost) = UNIV)"
proof -
  have inv: "std_inv (unpackLists s)"
    by (rule unpackLists_inv)
  have c: "npm_contains (standardAgentPermissions (unpackPermissions s)) standardNameLocalhost"
    by (simp add: unpack_standard addStandardNames_contains [OF inv])
  have "permissions (npm_value (standardAgentPermissions (unpackPermissions s)) standardNameLocalhost) = UNIV"
    if "\<not> list_ex (\<lambda>h. toLower (toStringV (valueOf (toMapV h) ''permissions_id'')) = ''localhost'')
           (listAt (userConfig s) AGENT_STANDARD_PERMISSIONS_KEYPATH)"
  proof -
    from that have "\<not> foundLocalhost (fst (unpackLists s))"
      by (simp add: unpackLists_foundLocalhost)
    then show ?thesis
      by (simp add: unpack_standard addStandardNames_localhost setAll_def)
  qed
  with c show ?thesis
    by (simp add: unpack_standard addStandardNames_contains [OF inv] getStandardPermissionsForName_def)
qed

text \<open>
  C1 as stated fails: a stored localhost entry without the connect capability is unpacked as it is.
\<close>

theorem unpack_localhost_counterexample:
  "\<not> can (getStandardPermissionsForName
            (unpackPermissions (emptyManager\<lparr>userConfig := restrictedLocalhostConfig\<rparr>))
            standardNameLocalhost) canConnectToDomain"
  by (simp add: unpack_standard unpackLists_def Let_def emptyManager_def restrictedLocalhostConfig_def
      keypath_defs ensureList_def listAt_def unpackStandard_def insertOrMerge_def
      npm_contains_def npm_assign_def npm_value_def lowerKey_def NodePermissions_map_def contains_def valueOf_def
      getID_def standardNameLocalhost_def standardNameAnonymous_def standardNameLoggedIn_def
      standardNameFriends_def toLower_def toLower_char_def flag_def addStandardNames_def
      addMissingStandard_def getKey_def NodePermissions_key_def getStandardPermissionsForName_def can_def)

theorem unpack_standard_roles_witness:
  "\<not> list_ex (\<lambda>h. toLower (toStringV (valueOf (toMapV h) ''permissions_id'')) = ''localhost'')
           (listAt (userConfig emptyManager) AGENT_STANDARD_PERMISSIONS_KEYPATH)
   \<and> permissions (getStandardPermissionsForName (unpackPermissions emptyManager) standardNameLocalhost) = UNIV"
  using unpack_standard_roles [of emptyManager]
  by (simp add: emptyManager_def listAt_def keypath_defs)

subsection \<open>Rank coverage\<close>

lemma extends_refl: "extends G m m"
  by (simp add: extends_def)

lemma extends_trans:
  assumes "extends G m m'" and "extends G m' m''"
  shows "extends G m m''"
proof -
  have a: "map_of m'' k = Some e" if "map_of m k = Some e" for k e
    using that assms unfolding extends_def by blast
  have b: "permissions e = {} \<and> (isGroup e \<longrightarrow> getGroupID e \<in> G)"
    if n: "map_of m k = None" and s: "map_of m'' k = Some e" for k e
  proof (cases "map_of m' k")
    case None
    with assms(2) s show ?thesis unfolding extends_def by blast
  next
    case (Some e')
    with assms(2) s have "e = e'" unfolding extends_def by fastforce
    with assms(1) n Some show ?thesis unfolding extends_def by blast
  qed
  show ?thesis
    unfolding extends_def using a b by blast
qed

lemma extends_mono: "extends G m m' \<Longrightarrow> G \<subseteq> H \<Longrightarrow> extends H m m'"
  unfolding extends_def by blast

lemma ensureRank_covered:
  "npm_contains (fst (snd acc)) (n, int r) \<Longrightarrow>
     fst (ensureRank n g acc r) = fst acc \<and> fst (snd (ensureRank n g acc r)) = fst (snd acc)"
  by (simp add: ensureRank_def Let_def)

lemma ensureRank_extends: "extends {g} (fst (snd acc)) (fst (snd (ensureRank n g acc r)))"
  by (auto simp: ensureRank_def Let_def extends_def npm_contains_def npm_assign_def update_conv'
      setGroupID_perms_def NodePermissions_key_def isGroup_def getGroupID_def split: if_splits)

lemma ensureRank_contains:
  "npm_contains (fst (snd (ensureRank n g acc r))) (n, int r)"
  by (auto simp: ensureRank_def Let_def npm_contains_assign)

lemma extends_contains: "extends G m m' \<Longrightarrow> npm_contains m k \<Longrightarrow> npm_contains m' k"
  unfolding extends_def npm_contains_def by fastforce

lemma foldl_ensureRank_extends:
  "extends {g} (fst (snd acc)) (fst (snd (foldl (ensureRank n g) acc rs)))"
proof (induction rs arbitrary: acc)
  case Nil
  show ?case by (simp add: extends_refl)
next
  case (Cons r rs)
  show ?case
    using extends_trans [OF ensureRank_extends Cons.IH] by simp
qed

lemma foldl_ensureRank_contains:
  "r \<in> set rs \<Longrightarrow> npm_contains (fst (snd (foldl (ensureRank n g) acc rs))) (n, int r)"
proof (induction rs arbitrary: acc)
  case Nil
  then show ?case by simp
next
  case (Cons x rs)
  show ?case
  proof (cases "r = x")
    case True
    have "npm_contains (fst (snd (ensureRank n g acc x))) (n, int x)"
      by (rule ensureRank_contains)
    then show ?thesis
      using True extends_contains [OF foldl_ensureRank_extends] by simp
  next
    case False
    with Cons show ?thesis by simp
  qed
qed

lemma foldl_ensureRank_covered:
  "\<forall>r \<in> set rs. npm_contains (fst (snd acc)) (n, int r) \<Longrightarrow>
     fst (foldl (ensureRank n g) acc rs) = fst acc
     \<and> fst (snd (foldl (ensureRank n g) acc rs)) = fst (snd acc)"
proof (induction rs arbitrary: acc)
  case Nil
  show ?case by simp
next
  case (Cons x rs)
  from Cons.prems have x: "npm_contains (fst (snd acc)) (n, int x)" by simp
  note c = ensureRank_covered [OF x, of g]
  from Cons.prems c have "\<forall>r \<in> set rs. npm_contains (fst (snd (ensureRank n g acc x))) (n, int r)"
    by simp
  from Cons.IH [OF this] c show ?case by simp
qed

lemma ensureGroup_extends: "extends {g} (fst (snd acc)) (fst (snd (ensureGroup s acc g)))"
  by (simp add: ensureGroup_def foldl_ensureRank_extends)

lemma ensureGroup_contains:
  "r < length (rankNamesFor s g) \<Longrightarrow>
     npm_contains (fst (snd (ensureGroup s acc g))) (groupNameFor s g, int r)"
  by (simp add: ensureGroup_def foldl_ensureRank_contains)

lemma ensureGroup_covered:
  "\<forall>r < length (rankNamesFor s g). npm_contains (fst (snd acc)) (groupNameFor s g, int r) \<Longrightarrow>
     fst (ensureGroup s acc g) = fst acc \<and> fst (snd (ensureGroup s acc g)) = fst (snd acc)"
  by (simp add: ensureGroup_def foldl_ensureRank_covered)

lemma foldl_ensureGroup_extends:
  "extends (set gs) (fst (snd acc)) (fst (snd (foldl (ensureGroup s) acc gs)))"
proof (induction gs arbitrary: acc)
  case Nil
  show ?case by (simp add: extends_refl)
next
  case (Cons g gs)
  have 1: "extends (set (g # gs)) (fst (snd acc)) (fst (snd (ensureGroup s acc g)))"
    by (rule extends_mono [OF ensureGroup_extends]) simp
  have 2: "extends (set (g # gs)) (fst (snd (ensureGroup s acc g)))
             (fst (snd (foldl (ensureGroup s) (ensureGroup s acc g) gs)))"
    by (rule extends_mono [OF Cons.IH]) auto
  from extends_trans [OF 1 2] show ?case by simp
qed

lemma foldl_ensureGroup_contains:
  "g \<in> set gs \<Longrightarrow> r < length (rankNamesFor s g) \<Longrightarrow>
     npm_contains (fst (snd (foldl (ensureGroup s) acc gs))) (groupNameFor s g, int r)"
proof (induction gs arbitrary: acc)
  case Nil
  then show ?case by simp
next
  case (Cons x gs)
  show ?case
  proof (cases "g = x")
    case True
    have "npm_contains (fst (snd (ensureGroup s acc x))) (groupNameFor s x, int r)"
      using Cons.prems True by (simp add: ensureGroup_contains)
    then show ?thesis
      using True extends_contains [OF foldl_ensureGroup_extends] by simp
  next
    case False
    with Cons show ?thesis by simp
  qed
qed

lemma foldl_ensureGroup_covered:
  "\<forall>g \<in> set gs. \<forall>r < length (rankNamesFor s g). npm_contains (fst (snd acc)) (groupNameFor s g, int r) \<Longrightarrow>
     fst (foldl (ensureGroup s) acc gs) = fst acc
     \<and> fst (snd (foldl (ensureGroup s) acc gs)) = fst (snd acc)"
proof (induction gs arbitrary: acc)
  case Nil
  show ?case by simp
next
  case (Cons x gs)
  from Cons.prems have "\<forall>r < length (rankNamesFor s x). npm_contains (fst (snd acc)) (groupNameFor s x, int r)"
    by simp
  note c = ensureGroup_covered [OF this]
  from Cons.prems c
  have "\<forall>g \<in> set gs. \<forall>r < length (rankNamesFor s g).
          npm_contains (fst (snd (ensureGroup s acc x))) (groupNameFor s g, int r)"
    by simp
  from Cons.IH [OF this] c show ?case by simp
qed


lemma groupIDsOf_set:
  "g \<in> set (groupIDsOf m) \<longleftrightarrow>
     (\<exists>k \<in> set (npm_keys m). isGroup (npm_value m k) \<and> g = getGroupID (npm_value m k))"
  by (auto simp: groupIDsOf_def)

lemma touch_lookup: "map_of (touch d al k) k' = (if k = k' \<and> map_of al k' = None then Some d else map_of al k')"
  by (simp add: touch_def update_conv')

lemma foldl_touch_default:
  "(case map_of (foldl (touch d) al ks) k of None \<Rightarrow> d | Some v \<Rightarrow> v) =
   (case map_of al k of None \<Rightarrow> d | Some v \<Rightarrow> v)"
  by (induction ks arbitrary: al) (auto simp: touch_lookup)

lemma ensure_names_ranks:
  "groupNameFor (snd (ensurePermissionsForGroupRanks s)) g = groupNameFor s g"
  "rankNamesFor (snd (ensurePermissionsForGroupRanks s)) g = rankNamesFor s g"
  by (simp_all add: ensurePermissionsForGroupRanks_def Let_def groupNameFor_def rankNamesFor_def
      foldl_touch_default)



lemma isGroup_npm_value:
  "isGroup (npm_value m k) \<Longrightarrow> map_of m (lowerKey k) = Some (npm_value m k)"
  by (auto simp: npm_value_def isGroup_def NodePermissions_key_def split: option.splits)

lemma map_of_npm_key:
  "map_of m k = Some e \<Longrightarrow> k \<in> set (npm_keys m)"
  by (auto simp: npm_keys_def dest: map_of_SomeD intro: rev_image_eqI)

lemma extends_groupIDs:
  assumes "extends G m m'"
  shows "set (groupIDsOf m') \<subseteq> set (groupIDsOf m) \<union> G"
proof
  fix g
  assume "g \<in> set (groupIDsOf m')"
  then obtain k where k: "k \<in> set (npm_keys m')" and grp: "isGroup (npm_value m' k)"
      and g: "g = getGroupID (npm_value m' k)"
    by (auto simp: groupIDsOf_set)
  let ?e = "npm_value m' k"
  from grp have e: "map_of m' (lowerKey k) = Some ?e"
    by (rule isGroup_npm_value)
  show "g \<in> set (groupIDsOf m) \<union> G"
  proof (cases "map_of m (lowerKey k)")
    case None
    with assms e grp g show ?thesis
      unfolding extends_def by blast
  next
    case (Some e')
    with assms e have eq: "e' = ?e"
      unfolding extends_def by fastforce
    from Some have "lowerKey k \<in> set (npm_keys m)"
      by (rule map_of_npm_key)
    moreover from Some eq have "npm_value m (lowerKey k) = ?e"
      by (simp add: npm_value_def lowerKey_idem)
    ultimately have "g \<in> set (groupIDsOf m)"
      unfolding groupIDsOf_set using grp g by (intro bexI [of _ "lowerKey k"]) simp_all
    then show ?thesis by simp
  qed
qed

lemma ensureGroup_cong:
  "ensureGroup (snd (ensurePermissionsForGroupRanks s)) = ensureGroup s"
  by (intro ext) (simp add: ensureGroup_def ensure_names_ranks)

lemma ensure_fields:
  "groupPermissions (snd (ensurePermissionsForGroupRanks s)) =
     fst (snd (foldl (ensureGroup s) (False, groupPermissions s, groupPermissionsByUUID s) (getGroupIDs s)))"
  "groupForbiddens (snd (ensurePermissionsForGroupRanks s)) =
     fst (snd (foldl (ensureGroup s)
       (fst (foldl (ensureGroup s) (False, groupPermissions s, groupPermissionsByUUID s) (getGroupIDs s)),
        groupForbiddens s, groupForbiddensByUUID s) (getBlacklistGroupIDs s)))"
  by (simp_all add: ensurePermissionsForGroupRanks_def Let_def)

lemma ensureRank_snd_indep:
  "snd (ensureRank n g (c, mi) r) = snd (ensureRank n g (c', mi) r)"
  by (simp add: ensureRank_def Let_def)

lemma foldl_ensureRank_snd_indep:
  "snd (foldl (ensureRank n g) (c, mi) rs) = snd (foldl (ensureRank n g) (c', mi) rs)"
proof (induction rs arbitrary: c c' mi)
  case Nil
  show ?case by simp
next
  case (Cons r rs)
  obtain c1 mi1 where 1: "ensureRank n g (c, mi) r = (c1, mi1)"
    by (cases "ensureRank n g (c, mi) r")
  obtain c2 mi2 where 2: "ensureRank n g (c', mi) r = (c2, mi2)"
    by (cases "ensureRank n g (c', mi) r")
  from 1 2 ensureRank_snd_indep [of n g c mi r c'] have "mi1 = mi2" by simp
  with 1 2 Cons.IH [of c1 mi1 c2] show ?case by simp
qed

lemma foldl_ensureGroup_snd_indep:
  "snd (foldl (ensureGroup s) (c, mi) gs) = snd (foldl (ensureGroup s) (c', mi) gs)"
proof (induction gs arbitrary: c c' mi)
  case Nil
  show ?case by simp
next
  case (Cons g gs)
  obtain c1 mi1 where 1: "ensureGroup s (c, mi) g = (c1, mi1)"
    by (cases "ensureGroup s (c, mi) g")
  obtain c2 mi2 where 2: "ensureGroup s (c', mi) g = (c2, mi2)"
    by (cases "ensureGroup s (c', mi) g")
  from 1 2 foldl_ensureRank_snd_indep
      [of "groupNameFor s g" g c mi "[0..<length (rankNamesFor s g)]" c']
  have "mi1 = mi2"
    by (simp add: ensureGroup_def)
  with 1 2 Cons.IH [of c1 mi1 c2] show ?case by simp
qed

lemma second_pass:
  assumes "m' = fst (snd (foldl (ensureGroup s) (c0, m, i) (groupIDsOf m)))"
  shows "fst (foldl (ensureGroup s) (c, m', i') (groupIDsOf m')) = c"
proof -
  have ext: "extends (set (groupIDsOf m)) m m'"
    using foldl_ensureGroup_extends [where s = s and acc = "(c0, m, i)" and gs = "groupIDsOf m"] assms
    by simp
  have "\<forall>g \<in> set (groupIDsOf m'). \<forall>r < length (rankNamesFor s g). npm_contains m' (groupNameFor s g, int r)"
  proof (intro ballI allI impI)
    fix g r
    assume "g \<in> set (groupIDsOf m')" and r: "r < length (rankNamesFor s g)"
    with extends_groupIDs [OF ext] have "g \<in> set (groupIDsOf m)" by auto
    from foldl_ensureGroup_contains [OF this r] assms
    show "npm_contains m' (groupNameFor s g, int r)" by simp
  qed
  from foldl_ensureGroup_covered [where gs = "groupIDsOf m'" and s = s and acc = "(c, m', i')"] this
  show ?thesis by simp
qed

lemma extends_empty:
  assumes "extends G m m'" and "npm_contains m' k" and "\<not> npm_contains m k"
  shows "permissions (npm_value m' k) = {}"
proof -
  from assms(2) obtain e where e: "map_of m' (lowerKey k) = Some e"
    by (auto simp: npm_contains_def)
  from assms(3) have "map_of m (lowerKey k) = None"
    by (simp add: npm_contains_def)
  with assms(1) e have "permissions e = {}"
    unfolding extends_def by blast
  with e show ?thesis by (simp add: npm_value_def)
qed

text \<open>
  C9. For every group id found in the group-permissions map (respectively the group-forbiddens
  map) and every known rank of that group, after \<open>ensurePermissionsForGroupRanks\<close> the map has
  an entry at (group name, rank), with no capability when the entry was absent before; and a
  second call right afterwards returns \<open>false\<close>.
\<close>

theorem ensureRankCoverage:
  "(\<forall>g \<in> set (getGroupIDs s). \<forall>r < length (rankNamesFor s g).
      npm_contains (groupPermissions (snd (ensurePermissionsForGroupRanks s))) (groupNameFor s g, int r)
      \<and> (\<not> npm_contains (groupPermissions s) (groupNameFor s g, int r) \<longrightarrow>
           permissions (getPermissionsForGroup (snd (ensurePermissionsForGroupRanks s))
             (groupNameFor s g) (int r)) = {}))
   \<and> (\<forall>g \<in> set (getBlacklistGroupIDs s). \<forall>r < length (rankNamesFor s g).
      npm_contains (groupForbiddens (snd (ensurePermissionsForGroupRanks s))) (groupNameFor s g, int r)
      \<and> (\<not> npm_contains (groupForbiddens s) (groupNameFor s g, int r) \<longrightarrow>
           permissions (getForbiddensForGroup (snd (ensurePermissionsForGroupRanks s))
             (groupNameFor s g) (int r)) = {}))
   \<and> \<not> fst (ensurePermissionsForGroupRanks (snd (ensurePermissionsForGroupRanks s)))"
proof -
  let ?s' = "snd (ensurePermissionsForGroupRanks s)"
  let ?r1 = "foldl (ensureGroup s) (False, groupPermissions s, groupPermissionsByUUID s) (getGroupIDs s)"
  let ?r2 = "foldl (ensureGroup s) (fst ?r1, groupForbiddens s, groupForbiddensByUUID s) (getBlacklistGroupIDs s)"
  have gp: "groupPermissions ?s' = fst (snd ?r1)" and gf: "groupForbiddens ?s' = fst (snd ?r2)"
    by (simp_all add: ensure_fields)
  have ext1: "extends (set (getGroupIDs s)) (groupPermissions s) (groupPermissions ?s')"
    unfolding gp
    using foldl_ensureGroup_extends
      [where s = s and acc = "(False, groupPermissions s, groupPermissionsByUUID s)" and gs = "getGroupIDs s"]
    by simp
  have ext2: "extends (set (getBlacklistGroupIDs s)) (groupForbiddens s) (groupForbiddens ?s')"
    unfolding gf
    using foldl_ensureGroup_extends
      [where s = s and acc = "(fst ?r1, groupForbiddens s, groupForbiddensByUUID s)"
         and gs = "getBlacklistGroupIDs s"]
    by simp
  have c1: "npm_contains (groupPermissions ?s') (groupNameFor s g, int r)"
    if "g \<in> set (getGroupIDs s)" and "r < length (rankNamesFor s g)" for g r
    unfolding gp using that by (rule foldl_ensureGroup_contains)
  have c2: "npm_contains (groupForbiddens ?s') (groupNameFor s g, int r)"
    if "g \<in> set (getBlacklistGroupIDs s)" and "r < length (rankNamesFor s g)" for g r
    unfolding gf using that by (rule foldl_ensureGroup_contains)
  have e1: "permissions (getPermissionsForGroup ?s' (groupNameFor s g) (int r)) = {}"
    if "g \<in> set (getGroupIDs s)" and "r < length (rankNamesFor s g)"
      and "\<not> npm_contains (groupPermissions s) (groupNameFor s g, int r)" for g r
    using extends_empty [OF ext1 c1 [OF that(1,2)] that(3)] c1 [OF that(1,2)]
    by (simp add: getPermissionsForGroup_def)
  have e2: "permissions (getForbiddensForGroup ?s' (groupNameFor s g) (int r)) = {}"
    if "g \<in> set (getBlacklistGroupIDs s)" and "r < length (rankNamesFor s g)"
      and "\<not> npm_contains (groupForbiddens s) (groupNameFor s g, int r)" for g r
    using extends_empty [OF ext2 c2 [OF that(1,2)] that(3)] c2 [OF that(1,2)]
    by (simp add: getForbiddensForGroup_def)
  have p1: "fst (foldl (ensureGroup s) (False, groupPermissions ?s', groupPermissionsByUUID ?s')
              (groupIDsOf (groupPermissions ?s'))) = False"
    by (rule second_pass [where ?c0.0 = False and i = "groupPermissionsByUUID s" and m = "groupPermissions s"])
       (simp add: gp getGroupIDs_def)
  have p2: "fst (foldl (ensureGroup s) (False, groupForbiddens ?s', groupForbiddensByUUID ?s')
              (groupIDsOf (groupForbiddens ?s'))) = False"
    by (rule second_pass [where ?c0.0 = "fst ?r1" and i = "groupForbiddensByUUID s" and m = "groupForbiddens s"])
       (simp add: gf getBlacklistGroupIDs_def)
  have idem: "\<not> fst (ensurePermissionsForGroupRanks ?s')"
    unfolding ensurePermissionsForGroupRanks_def [of ?s'] Let_def ensureGroup_cong
      getGroupIDs_def getBlacklistGroupIDs_def
    by (simp add: p1 p2)
  from c1 c2 e1 e2 idem show ?thesis
    by blast
qed

theorem ensureRankCoverage_witness:
  "7 \<in> set (getGroupIDs pilotsManager) \<and> 1 < length (rankNamesFor pilotsManager 7)
   \<and> groupNameFor pilotsManager 7 = ''pilots''
   \<and> \<not> npm_contains (groupPermissions pilotsManager) (''pilots'', 1)
   \<and> npm_contains (groupPermissions (snd (ensurePermissionsForGroupRanks pilotsManager))) (''pilots'', 1)
   \<and> permissions (getPermissionsForGroup (snd (ensurePermissionsForGroupRanks pilotsManager)) ''pilots'' 1) = {}
   \<and> \<not> fst (ensurePermissionsForGroupRanks (snd (ensurePermissionsForGroupRanks pilotsManager)))"
proof -
  have a: "7 \<in> set (getGroupIDs pilotsManager)"
    by (simp add: getGroupIDs_def groupIDsOf_def pilotsManager_def npm_keys_def npm_value_def
        lowerKey_def toLower_def toLower_char_def isGroup_def getGroupID_def)
  have b: "(1::nat) < length (rankNamesFor pilotsManager 7)"
    by (simp add: rankNamesFor_def pilotsManager_def)
  have c: "groupNameFor pilotsManager 7 = ''pilots''"
    by (simp add: groupNameFor_def pilotsManager_def)
  have d: "\<not> npm_contains (groupPermissions pilotsManager) (''pilots'', 1)"
    by (simp add: npm_contains_def pilotsManager_def lowerKey_def toLower_def toLower_char_def)
  from ensureRankCoverage [of pilotsManager] a b c d show ?thesis
    by (metis int_ops(2))
qed

subsection \<open>Duplicate entries\<close>

















































subsection \<open>The UUID index of the forbidden groups\<close>




























end
